theory Spec2Isabelle
  imports Main "HOL-Library.Sublist"
begin

section \<open>The migration manager of trader-backend (package db)\<close>

text \<open>
  The package \<open>db\<close> (directory \<open>database\<close>) opens an SQLite file, creates the ledger table
  \<open>migrations\<close> and applies the compiled-in migrations, each in its own transaction.
  The Go functions \<open>NewDatabaseManager\<close>, \<open>Connect\<close>, \<open>InitializeDatabase\<close>,
  \<open>createMigrationsTable\<close>, \<open>GetMigrations\<close> and \<open>RunMigrations\<close> are embedded here with
  their names. The SQL engine and \<open>database/sql\<close> are not part of the repository: they are
  modelled below as a small store whose statements are the statement forms that occur in
  the repository's SQL, with store-level failures (I/O, locking) supplied by an
  environment.
\<close>

subsection \<open>SQL as the repository writes it\<close>

datatype sql_type = INTEGER | TEXT | DATETIME

text \<open>A column definition: name, type and the constraints used in the repository's DDL.\<close>

record column =
  cname :: string
  ctype :: sql_type
  primary_key :: bool
  autoincrement :: bool
  not_null :: bool
  is_unique :: bool
  default_current_timestamp :: bool

text \<open>
  The statements of the repository, as abstract syntax:
  \<^item> \<open>CreateTable ine t cols\<close> is \<^verbatim>\<open>CREATE TABLE [IF NOT EXISTS] t (cols)\<close>, \<open>ine\<close> telling
    whether \<^verbatim>\<open>IF NOT EXISTS\<close> is present;
  \<^item> \<open>CreateIndex i t c\<close> is \<^verbatim>\<open>CREATE INDEX i ON t(c)\<close>;
  \<^item> \<open>InsertMigration v n\<close> is \<^verbatim>\<open>INSERT INTO migrations (version, name) VALUES (v, n)\<close>.
  A migration's \<open>SQL\<close> text is the list of its statements.
\<close>

datatype stmt =
    CreateTable bool string "column list"
  | CreateIndex string string string
  | InsertMigration int string

text \<open>A row of the table \<open>migrations\<close>.\<close>

record ledger_row =
  row_id :: nat
  row_version :: int
  row_name :: string
  executed_at :: nat

text \<open>
  The contents of the database file: the tables and indexes in creation order, the rows
  of the table \<open>migrations\<close> (oldest first) and its AUTOINCREMENT counter. The table named
  \<open>migrations\<close> is taken to have the layout \<open>createMigrationsTable\<close> gives it, so its
  \<open>UNIQUE\<close> constraint on \<open>version\<close> is enforced whenever the table exists.
\<close>

record database =
  tables :: "(string \<times> column list) list"
  indexes :: "(string \<times> string \<times> string) list"
  ledger :: "ledger_row list"
  autoinc :: nat

definition has_table :: "string \<Rightarrow> database \<Rightarrow> bool" where
  "has_table t d = (t \<in> fst ` set (tables d))"

definition versions :: "database \<Rightarrow> int list" where
  "versions d = map row_version (ledger d)"


text \<open>One statement, at time \<open>now\<close>; \<open>Inl\<close> carries the engine's error text.\<close>

fun exec_stmt :: "nat \<Rightarrow> stmt \<Rightarrow> database \<Rightarrow> string + database" where
  "exec_stmt now (CreateTable ine t cols) d =
     (if has_table t d
      then (if ine then Inr d else Inl (''table '' @ t @ '' already exists''))
      else Inr (d\<lparr>tables := tables d @ [(t, cols)]\<rparr>))"
| "exec_stmt now (CreateIndex i t c) d =
     (case map_of (tables d) t of
        None \<Rightarrow> Inl (''no such table: main.'' @ t)
      | Some cols \<Rightarrow>
          if i \<in> fst ` set (indexes d) then Inl (''index '' @ i @ '' already exists'')
          else if c \<notin> cname ` set cols
            then Inl (''table '' @ t @ '' has no column named '' @ c)
          else Inr (d\<lparr>indexes := indexes d @ [(i, t, c)]\<rparr>))"
| "exec_stmt now (InsertMigration v n) d =
     (if \<not> has_table ''migrations'' d then Inl ''no such table: migrations''
      else if v \<in> set (versions d) then Inl ''UNIQUE constraint failed: migrations.version''
      else Inr (d\<lparr>ledger := ledger d @
                   [\<lparr>row_id = autoinc d + 1, row_version = v, row_name = n,
                     executed_at = now\<rparr>],
                 autoinc := autoinc d + 1\<rparr>))"

text \<open>
  A statement sequence runs statement by statement and stops at the first failure; the
  statements before the failing one have taken effect on the state returned.
\<close>

fun exec_script :: "nat \<Rightarrow> stmt list \<Rightarrow> database \<Rightarrow> database \<times> string option" where
  "exec_script now [] d = (d, None)"
| "exec_script now (s # ss) d =
     (case exec_stmt now s d of
        Inl e \<Rightarrow> (d, Some e)
      | Inr d' \<Rightarrow> exec_script now ss d')"

text \<open>\<^verbatim>\<open>SELECT COUNT(*) FROM migrations WHERE version = v\<close>\<close>

definition select_count :: "int \<Rightarrow> database \<Rightarrow> string + int" where
  "select_count v d =
     (if \<not> has_table ''migrations'' d then Inl ''no such table: migrations''
      else Inr (int (length (filter (\<lambda>r. row_version r = v) (ledger d)))))"

subsection \<open>The store handle\<close>

text \<open>Every call the manager issues on \<open>*sql.DB\<close> and \<open>*sql.Tx\<close>.\<close>

datatype call =
    DBExec "stmt list"
  | DBQueryCount int
  | DBBegin
  | TxExec "stmt list"
  | TxRollback
  | TxCommit

text \<open>What the manager writes to its logger and to \<open>log.Printf\<close>, one constructor per call site.\<close>

datatype log_entry =
    OpenFailed string
  | PingFailed string
  | Connected string
  | Skipping int string
  | Executing int string
  | Executed int string
  | Initialized

text \<open>
  The world outside the manager: the committed contents of the database file, the calls
  issued so far and the log written so far.
\<close>

record world =
  stored :: database
  calls :: "call list"
  logged :: "log_entry list"

text \<open>
  The environment decides what the program does not: whether \<open>sql.Open\<close> and \<open>Ping\<close> fail
  for a data source name, whether the \<open>n\<close>-th call on the handle fails at store level
  (with which error text), whether a \<open>COMMIT\<close> that reported failure persisted the
  transaction all the same, and the time of the \<open>n\<close>-th call.
\<close>

record env =
  open_error :: "string \<Rightarrow> string option"
  ping_error :: "string \<Rightarrow> string option"
  fault :: "nat \<Rightarrow> string option"
  commit_persists :: "nat \<Rightarrow> bool"
  clock :: "nat \<Rightarrow> nat"

definition issue :: "call \<Rightarrow> world \<Rightarrow> world" where
  "issue c w = w\<lparr>calls := calls w @ [c]\<rparr>"

definition say :: "log_entry \<Rightarrow> world \<Rightarrow> world" where
  "say l w = w\<lparr>logged := logged w @ [l]\<rparr>"

text \<open>\<open>db.Exec\<close> outside a transaction: each statement is committed as it runs.\<close>

definition DB_Exec :: "env \<Rightarrow> stmt list \<Rightarrow> world \<Rightarrow> string option \<times> world" where
  "DB_Exec env script w =
     (let n = length (calls w); w1 = issue (DBExec script) w in
      case fault env n of
        Some e \<Rightarrow> (Some e, w1)
      | None \<Rightarrow> (case exec_script (clock env n) script (stored w1) of
                  (d, r) \<Rightarrow> (r, w1\<lparr>stored := d\<rparr>)))"

text \<open>\<open>db.QueryRow(...).Scan(&count)\<close>\<close>

definition DB_QueryCount :: "env \<Rightarrow> int \<Rightarrow> world \<Rightarrow> (string + int) \<times> world" where
  "DB_QueryCount env v w =
     (let n = length (calls w); w1 = issue (DBQueryCount v) w in
      case fault env n of
        Some e \<Rightarrow> (Inl e, w1)
      | None \<Rightarrow> (select_count v (stored w1), w1))"

text \<open>
  \<open>db.Begin\<close>: a transaction is a working copy of the file's contents. The manager is the
  only writer, so the copy is taken from the committed state.
\<close>

definition DB_Begin :: "env \<Rightarrow> world \<Rightarrow> (string + database) \<times> world" where
  "DB_Begin env w =
     (let n = length (calls w); w1 = issue DBBegin w in
      case fault env n of
        Some e \<Rightarrow> (Inl e, w1)
      | None \<Rightarrow> (Inr (stored w1), w1))"

text \<open>\<open>tx.Exec\<close>: the statements change the working copy only.\<close>

definition Tx_Exec ::
  "env \<Rightarrow> stmt list \<Rightarrow> database \<Rightarrow> world \<Rightarrow> string option \<times> database \<times> world" where
  "Tx_Exec env script tx w =
     (let n = length (calls w); w1 = issue (TxExec script) w in
      case fault env n of
        Some e \<Rightarrow> (Some e, tx, w1)
      | None \<Rightarrow> (case exec_script (clock env n) script tx of
                  (tx', r) \<Rightarrow> (r, tx', w1)))"

text \<open>\<open>tx.Rollback\<close> drops the working copy; the manager ignores its result.\<close>

definition Tx_Rollback :: "database \<Rightarrow> world \<Rightarrow> world" where
  "Tx_Rollback tx w = issue TxRollback w"

text \<open>\<open>tx.Commit\<close> installs the working copy as the file's contents.\<close>

definition Tx_Commit :: "env \<Rightarrow> database \<Rightarrow> world \<Rightarrow> string option \<times> world" where
  "Tx_Commit env tx w =
     (let n = length (calls w); w1 = issue TxCommit w in
      case fault env n of
        Some e \<Rightarrow> (Some e, if commit_persists env n then w1\<lparr>stored := tx\<rparr> else w1)
      | None \<Rightarrow> (None, w1\<lparr>stored := tx\<rparr>))"

subsection \<open>Errors\<close>

text \<open>
  The errors the manager returns, one constructor per \<open>return\<close> site: \<open>DriverError\<close> is an
  error passed on unwrapped (\<open>Connect\<close>), the others are the \<open>fmt.Errorf\<close> wrappers, each
  carrying the arguments of its format string.
\<close>

datatype go_error =
    DriverError string
  | CreateTableFailed string
  | CheckStatusFailed string
  | BeginFailed string
  | ExecuteFailed int string
  | RecordFailed int string
  | CommitFailed int string

text \<open>\<open>%d\<close> of a Go \<open>int\<close>.\<close>

fun decimal_nat :: "nat \<Rightarrow> string" where
  "decimal_nat n =
     (if n < 10 then [''0123456789'' ! n]
      else decimal_nat (n div 10) @ [''0123456789'' ! (n mod 10)])"

declare decimal_nat.simps [simp del]

definition decimal :: "int \<Rightarrow> string" where
  "decimal i = (if i < 0 then ''-'' @ decimal_nat (nat (- i)) else decimal_nat (nat i))"

text \<open>The text of an error, as its \<open>Error()\<close> method gives it.\<close>

fun error_text :: "go_error \<Rightarrow> string" where
  "error_text (DriverError e) = e"
| "error_text (CreateTableFailed e) = ''failed to create migrations table: '' @ e"
| "error_text (CheckStatusFailed e) = ''failed to check migration status: '' @ e"
| "error_text (BeginFailed e) = ''failed to begin transaction: '' @ e"
| "error_text (ExecuteFailed v e) = ''failed to execute migration '' @ decimal v @ '': '' @ e"
| "error_text (RecordFailed v e) = ''failed to record migration '' @ decimal v @ '': '' @ e"
| "error_text (CommitFailed v e) = ''failed to commit migration '' @ decimal v @ '': '' @ e"

text \<open>
  A method either returns (\<open>nil\<close> or an error) or panics: calling a method of a \<open>nil\<close>
  \<open>*sql.DB\<close> dereferences a nil pointer.
\<close>

datatype outcome = Returned "go_error option" | NilDereference

subsection \<open>The manager\<close>

datatype sql_DB = Handle string

text \<open>
  \<open>DatabaseManager\<close>: the handle (\<open>None\<close> is Go's \<open>nil\<close>) and the path. Its \<open>logger\<close> field
  is not a field here: what is written to it is the \<open>logged\<close> component of the world.
\<close>

record DatabaseManager =
  DB :: "sql_DB option"
  DBPath :: string

record Migration =
  Version :: int
  Name :: string
  SQL :: "stmt list"

definition NewDatabaseManager :: "string \<Rightarrow> DatabaseManager" where
  "NewDatabaseManager dbPath = \<lparr>DB = None, DBPath = dbPath\<rparr>"

definition Connect ::
  "env \<Rightarrow> DatabaseManager \<Rightarrow> world \<Rightarrow> go_error option \<times> DatabaseManager \<times> world" where
  "Connect env dm w =
     (let dsn = DBPath dm @ ''?_foreign_keys=on'' in
      case open_error env dsn of
        Some e \<Rightarrow> (Some (DriverError e), dm, say (OpenFailed e) w)
      | None \<Rightarrow>
          (case ping_error env dsn of
             Some e \<Rightarrow> (Some (DriverError e), dm, say (PingFailed e) w)
           | None \<Rightarrow> (None, dm\<lparr>DB := Some (Handle dsn)\<rparr>, say (Connected (DBPath dm)) w)))"

definition migrations_columns :: "column list" where
  "migrations_columns =
     [\<lparr>cname = ''id'', ctype = INTEGER, primary_key = True, autoincrement = True,
       not_null = False, is_unique = False, default_current_timestamp = False\<rparr>,
      \<lparr>cname = ''version'', ctype = INTEGER, primary_key = False, autoincrement = False,
       not_null = True, is_unique = True, default_current_timestamp = False\<rparr>,
      \<lparr>cname = ''name'', ctype = TEXT, primary_key = False, autoincrement = False,
       not_null = True, is_unique = False, default_current_timestamp = False\<rparr>,
      \<lparr>cname = ''executed_at'', ctype = DATETIME, primary_key = False, autoincrement = False,
       not_null = False, is_unique = False, default_current_timestamp = True\<rparr>]"

definition create_migrations_query :: "stmt list" where
  "create_migrations_query = [CreateTable True ''migrations'' migrations_columns]"

definition createMigrationsTable ::
  "env \<Rightarrow> DatabaseManager \<Rightarrow> world \<Rightarrow> outcome \<times> world" where
  "createMigrationsTable env dm w =
     (case DB dm of
        None \<Rightarrow> (NilDereference, w)
      | Some h \<Rightarrow>
          (case DB_Exec env create_migrations_query w of
             (Some e, w1) \<Rightarrow> (Returned (Some (CreateTableFailed e)), w1)
           | (None, w1) \<Rightarrow> (Returned None, w1)))"

definition users_columns :: "column list" where
  "users_columns =
     [\<lparr>cname = ''id'', ctype = INTEGER, primary_key = True, autoincrement = True,
       not_null = False, is_unique = False, default_current_timestamp = False\<rparr>,
      \<lparr>cname = ''username'', ctype = TEXT, primary_key = False, autoincrement = False,
       not_null = True, is_unique = True, default_current_timestamp = False\<rparr>,
      \<lparr>cname = ''email'', ctype = TEXT, primary_key = False, autoincrement = False,
       not_null = True, is_unique = True, default_current_timestamp = False\<rparr>,
      \<lparr>cname = ''created_at'', ctype = DATETIME, primary_key = False, autoincrement = False,
       not_null = False, is_unique = False, default_current_timestamp = True\<rparr>,
      \<lparr>cname = ''updated_at'', ctype = DATETIME, primary_key = False, autoincrement = False,
       not_null = False, is_unique = False, default_current_timestamp = True\<rparr>]"

definition GetMigrations :: "Migration list" where
  "GetMigrations =
     [\<lparr>Version = 1, Name = ''create_users_table'',
       SQL = [CreateTable False ''users'' users_columns,
              CreateIndex ''idx_users_username'' ''users'' ''username'',
              CreateIndex ''idx_users_email'' ''users'' ''email'']\<rparr>]"

text \<open>
  The body of the \<open>for\<close> loop of \<open>RunMigrations\<close> for one migration: \<open>Some err\<close> is
  \<open>return err\<close>, \<open>None\<close> is going on to the next migration (after \<open>continue\<close> or at the end
  of the body).
\<close>

definition RunMigrations_step ::
  "env \<Rightarrow> Migration \<Rightarrow> world \<Rightarrow> go_error option \<times> world" where
  "RunMigrations_step env migration w =
     (case DB_QueryCount env (Version migration) w of
        (Inl err, w1) \<Rightarrow> (Some (CheckStatusFailed err), w1)
      | (Inr count, w1) \<Rightarrow>
          if count > 0
          then (None, say (Skipping (Version migration) (Name migration)) w1)
          else
            (let w2 = say (Executing (Version migration) (Name migration)) w1 in
             case DB_Begin env w2 of
               (Inl err, w3) \<Rightarrow> (Some (BeginFailed err), w3)
             | (Inr tx, w3) \<Rightarrow>
                 (case Tx_Exec env (SQL migration) tx w3 of
                    (Some err, tx1, w4) \<Rightarrow>
                      (Some (ExecuteFailed (Version migration) err), Tx_Rollback tx1 w4)
                  | (None, tx1, w4) \<Rightarrow>
                      (case Tx_Exec env
                              [InsertMigration (Version migration) (Name migration)] tx1 w4 of
                         (Some err, tx2, w5) \<Rightarrow>
                           (Some (RecordFailed (Version migration) err), Tx_Rollback tx2 w5)
                       | (None, tx2, w5) \<Rightarrow>
                           (case Tx_Commit env tx2 w5 of
                              (Some err, w6) \<Rightarrow>
                                (Some (CommitFailed (Version migration) err), w6)
                            | (None, w6) \<Rightarrow>
                                (None,
                                 say (Executed (Version migration) (Name migration)) w6))))))"

text \<open>The \<open>for ... range migrations\<close> loop: the slice is walked in its own order.\<close>

fun RunMigrations_loop ::
  "env \<Rightarrow> Migration list \<Rightarrow> world \<Rightarrow> go_error option \<times> world" where
  "RunMigrations_loop env [] w = (None, w)"
| "RunMigrations_loop env (migration # rest) w =
     (case RunMigrations_step env migration w of
        (Some err, w') \<Rightarrow> (Some err, w')
      | (None, w') \<Rightarrow> RunMigrations_loop env rest w')"

definition RunMigrations :: "env \<Rightarrow> DatabaseManager \<Rightarrow> world \<Rightarrow> outcome \<times> world" where
  "RunMigrations env dm w =
     (case DB dm of
        None \<Rightarrow> (NilDereference, w)
      | Some h \<Rightarrow>
          (case RunMigrations_loop env GetMigrations w of
             (r, w') \<Rightarrow> (Returned r, w')))"

definition InitializeDatabase ::
  "env \<Rightarrow> DatabaseManager \<Rightarrow> world \<Rightarrow> outcome \<times> DatabaseManager \<times> world" where
  "InitializeDatabase env dm w =
     (case Connect env dm w of
        (Some err, dm1, w1) \<Rightarrow> (Returned (Some err), dm1, w1)
      | (None, dm1, w1) \<Rightarrow>
          (case createMigrationsTable env dm1 w1 of
             (Returned None, w2) \<Rightarrow>
               (case RunMigrations env dm1 w2 of
                  (Returned None, w3) \<Rightarrow> (Returned None, dm1, say Initialized w3)
                | (r, w3) \<Rightarrow> (r, dm1, w3))
           | (r, w2) \<Rightarrow> (r, dm1, w2)))"

subsection \<open>Startup in \<open>cmd/t-backend/main.go\<close>\<close>

text \<open>
  \<open>UserModel\<close> (its \<open>Logger\<close> left out, as for the manager) and \<open>application\<close>, whose
  \<open>user\<close> field holds the model.
\<close>

record UserModel =
  UserModel_DB :: "sql_DB option"

record application =
  user :: UserModel

text \<open>\<open>getConfig\<close> fixes the path of the database file.\<close>

definition dbPath :: string where
  "dbPath = ''trader_backend.db''"

text \<open>
  \<open>main\<close> up to the end of \<open>InitializeDatabase\<close>: the manager is created, the application
  is built from the manager's \<open>DB\<close> field as it is at that moment (a Go struct literal
  copies the pointer value), then the database is initialized. The result is the
  application, the manager after the call, what \<open>InitializeDatabase\<close> returned and the world.
\<close>

definition main_startup ::
  "env \<Rightarrow> world \<Rightarrow> application \<times> DatabaseManager \<times> outcome \<times> world" where
  "main_startup env w =
     (let dbManager = NewDatabaseManager dbPath;
          app = \<lparr>user = \<lparr>UserModel_DB = DB dbManager\<rparr>\<rparr>
      in case InitializeDatabase env dbManager w of
           (r, dbManager', w') \<Rightarrow> (app, dbManager', r, w'))"

subsection \<open>Observations on a run\<close>

text \<open>The versions announced by \<open>log.Printf("Executing migration %d: %s", ...)\<close>, in order.\<close>

fun executing :: "log_entry list \<Rightarrow> int list" where
  "executing [] = []"
| "executing (Executing v n # ls) = v # executing ls"
| "executing (l # ls) = executing ls"

text \<open>The calls and log entries added between an earlier world \<open>w\<close> and a later one.\<close>

definition new_calls :: "world \<Rightarrow> world \<Rightarrow> call list" where
  "new_calls w w' = drop (length (calls w)) (calls w')"

definition new_logged :: "world \<Rightarrow> world \<Rightarrow> log_entry list" where
  "new_logged w w' = drop (length (logged w)) (logged w')"

text \<open>A call that only reads: the ledger query.\<close>

fun is_query :: "call \<Rightarrow> bool" where
  "is_query (DBQueryCount v) = True"
| "is_query c = False"

text \<open>
  From \<open>w\<close> to \<open>w'\<close> nothing happened but ledger queries: the file's contents are the
  same, every call added is the \<open>SELECT COUNT(*)\<close> query, and no migration was announced
  as executing.
\<close>

definition only_queried :: "world \<Rightarrow> world \<Rightarrow> bool" where
  "only_queried w w' =
     (stored w' = stored w \<and> prefix (calls w) (calls w') \<and> list_all is_query (new_calls w w')
      \<and> prefix (logged w) (logged w') \<and> executing (new_logged w w') = [])"


text \<open>Repeated \<open>Connect\<close> calls on one manager, one environment per attempt.\<close>

fun Connect_attempts ::
  "env list \<Rightarrow> DatabaseManager \<Rightarrow> world \<Rightarrow> go_error option list \<times> DatabaseManager \<times> world" where
  "Connect_attempts [] dm w = ([], dm, w)"
| "Connect_attempts (env # envs) dm w =
     (case Connect env dm w of
        (r, dm1, w1) \<Rightarrow>
          (case Connect_attempts envs dm1 w1 of
             (rs, dm2, w2) \<Rightarrow> (r # rs, dm2, w2)))"

subsection \<open>Concrete stores, environments and catalogs\<close>

text \<open>An environment in which nothing fails; the clock counts the calls.\<close>

definition quiet :: env where
  "quiet = \<lparr>open_error = (\<lambda>dsn. None), ping_error = (\<lambda>dsn. None), fault = (\<lambda>n. None),
            commit_persists = (\<lambda>n. False), clock = (\<lambda>n. n)\<rparr>"

text \<open>As \<open>quiet\<close>, but the call number \<open>k\<close> fails with \<open>database is locked\<close>.\<close>

definition locked_at :: "nat \<Rightarrow> env" where
  "locked_at k = quiet\<lparr>fault := (\<lambda>n. if n = k then Some ''database is locked'' else None)\<rparr>"

definition empty_database :: database where
  "empty_database = \<lparr>tables = [], indexes = [], ledger = [], autoinc = 0\<rparr>"

definition empty_world :: world where
  "empty_world = \<lparr>stored = empty_database, calls = [], logged = []\<rparr>"

text \<open>A store holding the ledger table and nothing else.\<close>

definition ledger_only :: world where
  "ledger_only =
     \<lparr>stored = empty_database\<lparr>tables := [(''migrations'', migrations_columns)]\<rparr>,
      calls = [], logged = []\<rparr>"

definition connected :: DatabaseManager where
  "connected = \<lparr>DB = Some (Handle (dbPath @ ''?_foreign_keys=on'')), DBPath = dbPath\<rparr>"

text \<open>
  A catalog of three migrations: the second creates a table and then an index on a table
  that does not exist, so its second statement fails.
\<close>

definition one_column :: "column list" where
  "one_column =
     [\<lparr>cname = ''id'', ctype = INTEGER, primary_key = True, autoincrement = False,
       not_null = False, is_unique = False, default_current_timestamp = False\<rparr>]"

definition migration_one :: Migration where
  "migration_one = \<lparr>Version = 1, Name = ''one'', SQL = [CreateTable False ''a'' one_column]\<rparr>"


definition migration_three :: Migration where
  "migration_three = \<lparr>Version = 3, Name = ''three'', SQL = [CreateTable False ''c'' one_column]\<rparr>"

text \<open>As \<open>quiet\<close>, but \<open>Ping\<close> fails.\<close>

definition ping_fails :: env where
  "ping_fails = quiet\<lparr>ping_error := (\<lambda>dsn. Some ''unable to open database file'')\<rparr>"

text \<open>The world after a first run of \<open>RunMigrations\<close> on the store holding only the ledger table.\<close>

definition migrated :: world where
  "migrated = snd (RunMigrations quiet connected ledger_only)"



section \<open>Properties\<close>

subsection \<open>The store\<close>

lemma issue_simps [simp]:
  "stored (issue c w) = stored w"
  "calls (issue c w) = calls w @ [c]"
  "logged (issue c w) = logged w"
  by (simp_all add: issue_def)

lemma say_simps [simp]:
  "stored (say l w) = stored w"
  "calls (say l w) = calls w"
  "logged (say l w) = logged w @ [l]"
  by (simp_all add: say_def)

lemma exec_stmt_ledger: "exec_stmt now s d = Inr d' \<Longrightarrow> prefix (ledger d) (ledger d')"
  by (cases s) (auto split: if_splits option.splits)

lemma exec_stmt_tables: "exec_stmt now s d = Inr d' \<Longrightarrow> prefix (tables d) (tables d')"
  by (cases s) (auto split: if_splits option.splits)

lemma exec_stmt_distinct:
  "exec_stmt now s d = Inr d' \<Longrightarrow> distinct (versions d) \<Longrightarrow> distinct (versions d')"
  by (cases s) (auto simp: versions_def split: if_splits option.splits)

lemma exec_script_ledger: "exec_script now ss d = (d', r) \<Longrightarrow> prefix (ledger d) (ledger d')"
proof (induction ss arbitrary: d)
  case Nil
  then show ?case by simp
next
  case (Cons s ss)
  show ?case
  proof (cases "exec_stmt now s d")
    case (Inl e)
    with Cons.prems show ?thesis by simp
  next
    case (Inr d1)
    with Cons.prems have "exec_script now ss d1 = (d', r)" by simp
    then have "prefix (ledger d1) (ledger d')" by (rule Cons.IH)
    moreover have "prefix (ledger d) (ledger d1)" using Inr by (rule exec_stmt_ledger)
    ultimately show ?thesis by (rule prefix_order.trans[rotated])
  qed
qed

lemma exec_script_tables: "exec_script now ss d = (d', r) \<Longrightarrow> prefix (tables d) (tables d')"
proof (induction ss arbitrary: d)
  case Nil
  then show ?case by simp
next
  case (Cons s ss)
  show ?case
  proof (cases "exec_stmt now s d")
    case (Inl e)
    with Cons.prems show ?thesis by simp
  next
    case (Inr d1)
    with Cons.prems have "exec_script now ss d1 = (d', r)" by simp
    then have "prefix (tables d1) (tables d')" by (rule Cons.IH)
    moreover have "prefix (tables d) (tables d1)" using Inr by (rule exec_stmt_tables)
    ultimately show ?thesis by (rule prefix_order.trans[rotated])
  qed
qed

lemma exec_script_distinct:
  "exec_script now ss d = (d', r) \<Longrightarrow> distinct (versions d) \<Longrightarrow> distinct (versions d')"
proof (induction ss arbitrary: d)
  case Nil
  then show ?case by simp
next
  case (Cons s ss)
  show ?case
  proof (cases "exec_stmt now s d")
    case (Inl e)
    with Cons.prems show ?thesis by simp
  next
    case (Inr d1)
    with Cons.prems have "exec_script now ss d1 = (d', r)" by simp
    moreover have "distinct (versions d1)" using Inr Cons.prems(2) by (rule exec_stmt_distinct)
    ultimately show ?thesis by (rule Cons.IH)
  qed
qed

lemma insert_recorded:
  "exec_script now [InsertMigration v n] d = (d', None) \<Longrightarrow> v \<in> set (versions d')"
  by (auto simp: versions_def split: if_splits)

lemma select_count_zero:
  "select_count v d = Inr c \<Longrightarrow> \<not> 0 < c \<Longrightarrow> v \<notin> set (versions d)"
  by (auto simp: select_count_def versions_def filter_empty_conv split: if_splits)

lemma select_count_pos:
  "v \<in> set (versions d) \<Longrightarrow> select_count v d = Inr c \<Longrightarrow> 0 < c"
  by (auto simp: select_count_def versions_def filter_empty_conv split: if_splits)

lemma executing_append: "executing (xs @ ys) = executing xs @ executing ys"
  by (induction xs rule: executing.induct) simp_all

subsection \<open>One migration\<close>

lemmas step_defs = RunMigrations_step_def DB_QueryCount_def DB_Begin_def Tx_Exec_def
  Tx_Rollback_def Tx_Commit_def Let_def

lemmas step_splits = prod.splits sum.splits option.splits if_splits

lemma step_cases [consumes 1, case_names check_failed skipped begin_failed execute_failed record_failed commit_failed applied]:
  assumes "RunMigrations_step env m w = (r, w')"
  obtains
    (check_failed) e where
      "r = Some (CheckStatusFailed e)"
      "w' = issue (DBQueryCount (Version m)) w"
  | (skipped) c where
      "select_count (Version m) (stored w) = Inr c" "0 < c"
      "r = None"
      "w' = say (Skipping (Version m) (Name m)) (issue (DBQueryCount (Version m)) w)"
  | (begin_failed) c e where
      "select_count (Version m) (stored w) = Inr c" "\<not> 0 < c"
      "r = Some (BeginFailed e)"
      "w' = issue DBBegin (say (Executing (Version m) (Name m))
              (issue (DBQueryCount (Version m)) w))"
  | (execute_failed) c e where
      "select_count (Version m) (stored w) = Inr c" "\<not> 0 < c"
      "r = Some (ExecuteFailed (Version m) e)"
      "w' = issue TxRollback (issue (TxExec (SQL m)) (issue DBBegin
              (say (Executing (Version m) (Name m)) (issue (DBQueryCount (Version m)) w))))"
  | (record_failed) c e where
      "select_count (Version m) (stored w) = Inr c" "\<not> 0 < c"
      "r = Some (RecordFailed (Version m) e)"
      "w' = issue TxRollback (issue (TxExec [InsertMigration (Version m) (Name m)])
              (issue (TxExec (SQL m)) (issue DBBegin
                (say (Executing (Version m) (Name m)) (issue (DBQueryCount (Version m)) w)))))"
  | (commit_failed) c e t1 tx1 t2 tx2 where
      "select_count (Version m) (stored w) = Inr c" "\<not> 0 < c"
      "exec_script t1 (SQL m) (stored w) = (tx1, None)"
      "exec_script t2 [InsertMigration (Version m) (Name m)] tx1 = (tx2, None)"
      "r = Some (CommitFailed (Version m) e)"
      "stored w' = stored w \<or> stored w' = tx2"
      "calls w' = calls w @ [DBQueryCount (Version m), DBBegin, TxExec (SQL m),
          TxExec [InsertMigration (Version m) (Name m)], TxCommit]"
      "logged w' = logged w @ [Executing (Version m) (Name m)]"
  | (applied) c t1 tx1 t2 tx2 where
      "select_count (Version m) (stored w) = Inr c" "\<not> 0 < c"
      "exec_script t1 (SQL m) (stored w) = (tx1, None)"
      "exec_script t2 [InsertMigration (Version m) (Name m)] tx1 = (tx2, None)"
      "r = None"
      "stored w' = tx2"
      "calls w' = calls w @ [DBQueryCount (Version m), DBBegin, TxExec (SQL m),
          TxExec [InsertMigration (Version m) (Name m)], TxCommit]"
      "logged w' = logged w @ [Executing (Version m) (Name m), Executed (Version m) (Name m)]"
  using assms
  by (auto simp: step_defs simp del: exec_stmt.simps exec_script.simps split: step_splits)

lemma select_count_recorded:
  "select_count v d = Inr c \<Longrightarrow> 0 < c \<Longrightarrow> v \<in> set (versions d)"
  by (force simp: select_count_def versions_def filter_empty_conv split: if_splits)

lemma step_calls: "RunMigrations_step env m w = (r, w') \<Longrightarrow> prefix (calls w) (calls w')"
  by (cases rule: step_cases) (auto simp: prefix_def)

lemma step_logged: "RunMigrations_step env m w = (r, w') \<Longrightarrow> prefix (logged w) (logged w')"
  by (cases rule: step_cases) (auto simp: prefix_def)

lemma step_ledger:
  assumes "RunMigrations_step env m w = (r, w')"
  shows "prefix (ledger (stored w)) (ledger (stored w'))"
  using assms
proof (cases rule: step_cases)
  case (commit_failed c e t1 tx1 t2 tx2)
  have "prefix (ledger (stored w)) (ledger tx2)"
    using exec_script_ledger[OF commit_failed(3)] exec_script_ledger[OF commit_failed(4)]
    by (rule prefix_order.trans)
  with commit_failed(6) show ?thesis by auto
next
  case (applied c t1 tx1 t2 tx2)
  have "prefix (ledger (stored w)) (ledger tx2)"
    using exec_script_ledger[OF applied(3)] exec_script_ledger[OF applied(4)]
    by (rule prefix_order.trans)
  with applied(6) show ?thesis by simp
qed simp_all

lemma step_tables:
  assumes "RunMigrations_step env m w = (r, w')"
  shows "prefix (tables (stored w)) (tables (stored w'))"
  using assms
proof (cases rule: step_cases)
  case (commit_failed c e t1 tx1 t2 tx2)
  have "prefix (tables (stored w)) (tables tx2)"
    using exec_script_tables[OF commit_failed(3)] exec_script_tables[OF commit_failed(4)]
    by (rule prefix_order.trans)
  with commit_failed(6) show ?thesis by auto
next
  case (applied c t1 tx1 t2 tx2)
  have "prefix (tables (stored w)) (tables tx2)"
    using exec_script_tables[OF applied(3)] exec_script_tables[OF applied(4)]
    by (rule prefix_order.trans)
  with applied(6) show ?thesis by simp
qed simp_all

lemma step_distinct:
  assumes "RunMigrations_step env m w = (r, w')" and "distinct (versions (stored w))"
  shows "distinct (versions (stored w'))"
  using assms(1)
proof (cases rule: step_cases)
  case (commit_failed c e t1 tx1 t2 tx2)
  have "distinct (versions tx2)"
    using commit_failed(4) exec_script_distinct[OF commit_failed(3) assms(2)]
    by (rule exec_script_distinct)
  with commit_failed(6) assms(2) show ?thesis by auto
next
  case (applied c t1 tx1 t2 tx2)
  have "distinct (versions tx2)"
    using applied(4) exec_script_distinct[OF applied(3) assms(2)]
    by (rule exec_script_distinct)
  with applied(6) show ?thesis by simp
qed (simp_all add: assms(2))

lemma step_applied:
  assumes "RunMigrations_step env m w = (None, w')"
  shows "Version m \<in> set (versions (stored w'))"
  using assms
proof (cases rule: step_cases)
  case (skipped c)
  then show ?thesis using select_count_recorded by simp
next
  case (applied c t1 tx1 t2 tx2)
  then show ?thesis using insert_recorded by simp
qed simp_all

text \<open>a migration whose version is in the ledger: only the query is issued\<close>
lemma step_recorded:
  assumes "RunMigrations_step env m w = (r, w')"
    and "Version m \<in> set (versions (stored w))"
  shows "stored w' = stored w \<and> calls w' = calls w @ [DBQueryCount (Version m)]
       \<and> executing (logged w') = executing (logged w)
       \<and> logged w' = logged w @ (if r = None then [Skipping (Version m) (Name m)] else [])"
  using assms(1)
proof (cases rule: step_cases)
  case (check_failed e)
  then show ?thesis by simp
next
  case (skipped c)
  then show ?thesis by (simp add: executing_append)
qed (use assms(2) select_count_zero in blast)+

lemma step_recorded_ok:
  assumes "Version m \<in> set (versions (stored w))" and "has_table ''migrations'' (stored w)"
    and "fault env (length (calls w)) = None"
  shows "fst (RunMigrations_step env m w) = None"
proof -
  obtain c where c: "select_count (Version m) (stored w) = Inr c"
    using assms(2) by (simp add: select_count_def)
  with assms(1) have "0 < c" by (rule select_count_pos)
  with c assms(3) show ?thesis
    by (simp add: RunMigrations_step_def DB_QueryCount_def Let_def)
qed


subsection \<open>The loop\<close>

lemma step_new_executing:
  assumes "RunMigrations_step env m w = (r, w')"
  shows "executing (new_logged w w') = [] \<or> executing (new_logged w w') = [Version m]"
  using assms by (cases rule: step_cases) (auto simp: new_logged_def)

lemma new_logged_trans:
  assumes "prefix (logged w) (logged w1)" and "prefix (logged w1) (logged w2)"
  shows "new_logged w w2 = new_logged w w1 @ new_logged w1 w2"
  using assms by (auto simp: prefix_def new_logged_def)



text \<open>an invariant kept by each step is kept by the loop\<close>
lemma loop_invariant:
  assumes "RunMigrations_loop env ms w = (r, w')"
    and "P w"
    and "\<And>m u r u'. P u \<Longrightarrow> RunMigrations_step env m u = (r, u') \<Longrightarrow> P u'"
  shows "P w'"
  using assms(1,2)
proof (induction ms arbitrary: w)
  case Nil
  then show ?case by simp
next
  case (Cons m ms)
  obtain r1 w1 where step: "RunMigrations_step env m w = (r1, w1)" by fastforce
  from Cons.prems(2) step have P1: "P w1" by (rule assms(3))
  show ?case
  proof (cases r1)
    case None
    with step Cons.prems(1) have "RunMigrations_loop env ms w1 = (r, w')" by simp
    then show ?thesis using P1 by (rule Cons.IH)
  next
    case (Some e)
    with step Cons.prems(1) have "w' = w1" by simp
    with P1 show ?thesis by simp
  qed
qed



lemma loop_ledger:
  "RunMigrations_loop env ms w = (r, w') \<Longrightarrow> prefix (ledger (stored w)) (ledger (stored w'))"
  by (erule loop_invariant[where P = "\<lambda>u. prefix (ledger (stored w)) (ledger (stored u))"])
     (auto dest: step_ledger intro: prefix_order.trans)

lemma loop_tables:
  "RunMigrations_loop env ms w = (r, w') \<Longrightarrow> prefix (tables (stored w)) (tables (stored w'))"
  by (erule loop_invariant[where P = "\<lambda>u. prefix (tables (stored w)) (tables (stored u))"])
     (auto dest: step_tables intro: prefix_order.trans)

lemma loop_distinct:
  "RunMigrations_loop env ms w = (r, w') \<Longrightarrow> distinct (versions (stored w))
    \<Longrightarrow> distinct (versions (stored w'))"
  by (erule loop_invariant[where P = "\<lambda>u. distinct (versions (stored u))"])
     (auto dest: step_distinct)

lemma versions_mono:
  "prefix (ledger d) (ledger d') \<Longrightarrow> v \<in> set (versions d) \<Longrightarrow> v \<in> set (versions d')"
  by (auto simp: versions_def prefix_def)

lemma loop_applied:
  assumes "RunMigrations_loop env ms w = (None, w')"
  shows "\<forall>m \<in> set ms. Version m \<in> set (versions (stored w'))"
  using assms
proof (induction ms arbitrary: w)
  case Nil
  then show ?case by simp
next
  case (Cons m ms)
  obtain r1 w1 where step: "RunMigrations_step env m w = (r1, w1)" by fastforce
  with Cons.prems have r1: "r1 = None" and rest: "RunMigrations_loop env ms w1 = (None, w')"
    by (auto split: option.splits)
  from step r1 have "Version m \<in> set (versions (stored w1))" by (simp add: step_applied)
  with loop_ledger[OF rest] have "Version m \<in> set (versions (stored w'))"
    by (rule versions_mono)
  with Cons.IH[OF rest] show ?case by simp
qed

subsection \<open>Connecting\<close>

lemma Connect_failed: "Connect env dm w = (Some err, dm', w') \<Longrightarrow> dm' = dm"
  by (auto simp: Connect_def Let_def split: option.splits)

lemma Connect_succeeded:
  "Connect env dm w = (None, dm', w') \<Longrightarrow>
     DB dm' = Some (Handle (DBPath dm @ ''?_foreign_keys=on'')) \<and> DBPath dm' = DBPath dm
     \<and> open_error env (DBPath dm @ ''?_foreign_keys=on'') = None
     \<and> ping_error env (DBPath dm @ ''?_foreign_keys=on'') = None"
  by (auto simp: Connect_def Let_def split: option.splits)

lemma Connect_world:
  "Connect env dm w = (r, dm', w') \<Longrightarrow> stored w' = stored w \<and> calls w' = calls w"
  by (auto simp: Connect_def Let_def split: option.splits)

lemma Connect_attempts_failed:
  assumes "Connect_attempts envs dm w = (rs, dm', w')" and "\<forall>r \<in> set rs. r \<noteq> None"
  shows "dm' = dm"
  using assms
proof (induction envs arbitrary: dm w rs dm' w')
  case Nil
  then show ?case by simp
next
  case (Cons env envs)
  obtain r dm1 w1 where first: "Connect env dm w = (r, dm1, w1)"
    by (metis prod_cases3)
  obtain rs' dm2 w2 where rest: "Connect_attempts envs dm1 w1 = (rs', dm2, w2)"
    by (metis prod_cases3)
  from first rest Cons.prems(1) have rs: "rs = r # rs'" and dm': "dm' = dm2" by simp_all
  from rs Cons.prems(2) obtain err where "r = Some err" by auto
  with first have "dm1 = dm" by (simp add: Connect_failed)
  moreover from rs Cons.prems(2) have "\<forall>r \<in> set rs'. r \<noteq> None" by simp
  with rest have "dm2 = dm1" by (rule Cons.IH)
  ultimately show ?case using dm' by simp
qed

text \<open>
  C9. \<open>Connect\<close> that returns an error leaves the manager as it was; \<open>DB\<close> is assigned only
  when both \<open>sql.Open\<close> and \<open>Ping\<close> succeeded, and then it is not \<open>nil\<close>; a manager made by
  \<open>NewDatabaseManager\<close> has a \<open>nil\<close> handle and keeps it through any number of failed
  \<open>Connect\<close> calls.
\<close>

theorem Connect_failure_keeps_manager:
  "(\<forall>err dm' w'. Connect env dm w = (Some err, dm', w') \<longrightarrow> dm' = dm)
   \<and> (\<forall>dm' w'. Connect env dm w = (None, dm', w') \<longrightarrow>
         DB dm' \<noteq> None \<and> ping_error env (DBPath dm @ ''?_foreign_keys=on'') = None
         \<and> open_error env (DBPath dm @ ''?_foreign_keys=on'') = None)
   \<and> DB (NewDatabaseManager path) = None
   \<and> (\<forall>rs dm' w'. Connect_attempts envs (NewDatabaseManager path) w = (rs, dm', w')
         \<and> (\<forall>r \<in> set rs. r \<noteq> None) \<longrightarrow> DB dm' = None)"
proof (intro conjI allI impI)
  fix err dm' w'
  assume "Connect env dm w = (Some err, dm', w')"
  then show "dm' = dm" by (rule Connect_failed)
next
  fix dm' w'
  assume ok: "Connect env dm w = (None, dm', w')"
  from Connect_succeeded[OF ok] show "DB dm' \<noteq> None" by simp
  from Connect_succeeded[OF ok]
  show "ping_error env (DBPath dm @ ''?_foreign_keys=on'') = None" by simp
  from Connect_succeeded[OF ok]
  show "open_error env (DBPath dm @ ''?_foreign_keys=on'') = None" by simp
next
  show "DB (NewDatabaseManager path) = None" by (simp add: NewDatabaseManager_def)
next
  fix rs dm' w'
  assume "Connect_attempts envs (NewDatabaseManager path) w = (rs, dm', w')
          \<and> (\<forall>r \<in> set rs. r \<noteq> None)"
  then have "dm' = NewDatabaseManager path" using Connect_attempts_failed by blast
  then show "DB dm' = None" by (simp add: NewDatabaseManager_def)
qed

theorem Connect_failure_keeps_manager_witness:
  "Connect ping_fails (NewDatabaseManager dbPath) empty_world =
     (Some (DriverError ''unable to open database file''), NewDatabaseManager dbPath,
      say (PingFailed ''unable to open database file'') empty_world)
   \<and> fst (Connect quiet (NewDatabaseManager dbPath) empty_world) = None
   \<and> DB (fst (snd (Connect quiet (NewDatabaseManager dbPath) empty_world))) \<noteq> None
   \<and> fst (Connect_attempts [ping_fails, ping_fails] (NewDatabaseManager dbPath) empty_world)
       = [Some (DriverError ''unable to open database file''),
          Some (DriverError ''unable to open database file'')]
   \<and> DB (fst (snd (Connect_attempts [ping_fails, ping_fails]
                      (NewDatabaseManager dbPath) empty_world))) = None"
proof -
  have a: "Connect ping_fails (NewDatabaseManager dbPath) empty_world =
     (Some (DriverError ''unable to open database file''), NewDatabaseManager dbPath,
      say (PingFailed ''unable to open database file'') empty_world)"
    by (simp add: Connect_def ping_fails_def quiet_def Let_def)
  have b: "Connect quiet (NewDatabaseManager dbPath) empty_world =
     (None, (NewDatabaseManager dbPath)\<lparr>DB := Some (Handle (dbPath @ ''?_foreign_keys=on''))\<rparr>,
      say (Connected dbPath) empty_world)"
    by (simp add: Connect_def quiet_def Let_def NewDatabaseManager_def)
  have c: "Connect ping_fails (NewDatabaseManager dbPath)
             (say (PingFailed ''unable to open database file'') empty_world) =
     (Some (DriverError ''unable to open database file''), NewDatabaseManager dbPath,
      say (PingFailed ''unable to open database file'')
        (say (PingFailed ''unable to open database file'') empty_world))"
    by (simp add: Connect_def ping_fails_def quiet_def Let_def)
  have d: "Connect_attempts [ping_fails, ping_fails] (NewDatabaseManager dbPath) empty_world
     = ([Some (DriverError ''unable to open database file''),
         Some (DriverError ''unable to open database file'')], NewDatabaseManager dbPath,
        say (PingFailed ''unable to open database file'')
          (say (PingFailed ''unable to open database file'') empty_world))"
    by (simp add: a c)
  note inst = Connect_failure_keeps_manager
    [of _ "NewDatabaseManager dbPath" empty_world dbPath "[ping_fails, ping_fails]"]
  from inst[of ping_fails] d
  have "DB (fst (snd (Connect_attempts [ping_fails, ping_fails]
                      (NewDatabaseManager dbPath) empty_world))) = None" by simp
  moreover from inst[of quiet] b
  have "DB (fst (snd (Connect quiet (NewDatabaseManager dbPath) empty_world))) \<noteq> None"
    by simp
  ultimately show ?thesis using a b d by simp
qed

subsection \<open>Running again\<close>

lemma only_queried_refl: "only_queried w w"
  by (simp add: only_queried_def new_calls_def new_logged_def)

lemma only_queried_trans:
  assumes "only_queried w w1" and "only_queried w1 w2"
  shows "only_queried w w2"
proof -
  from assms obtain cs ls where 1: "calls w1 = calls w @ cs" "logged w1 = logged w @ ls"
    by (auto simp: only_queried_def prefix_def)
  from assms obtain cs' ls' where 2: "calls w2 = calls w1 @ cs'" "logged w2 = logged w1 @ ls'"
    by (auto simp: only_queried_def prefix_def)
  from assms 1 2 show ?thesis
    by (simp add: only_queried_def new_calls_def new_logged_def executing_append)
qed

lemma step_only_queried:
  assumes "Version m \<in> set (versions (stored w))"
  shows "only_queried w (snd (RunMigrations_step env m w))"
proof -
  obtain r w' where step: "RunMigrations_step env m w = (r, w')" by fastforce
  from step_recorded[OF step assms] show ?thesis
    by (simp add: step only_queried_def new_calls_def new_logged_def)
qed

lemma loop_only_queried:
  assumes "\<forall>m \<in> set ms. Version m \<in> set (versions (stored w))"
  shows "only_queried w (snd (RunMigrations_loop env ms w))"
  using assms
proof (induction ms arbitrary: w)
  case Nil
  show ?case by (simp add: only_queried_refl)
next
  case (Cons m ms)
  obtain r w1 where step: "RunMigrations_step env m w = (r, w1)" by fastforce
  from Cons.prems have "Version m \<in> set (versions (stored w))" by simp
  from step_only_queried[OF this, of env] step have first: "only_queried w w1" by simp
  show ?case
  proof (cases r)
    case None
    from first Cons.prems have "\<forall>m \<in> set ms. Version m \<in> set (versions (stored w1))"
      by (simp add: only_queried_def)
    then have "only_queried w1 (snd (RunMigrations_loop env ms w1))" by (rule Cons.IH)
    with first have "only_queried w (snd (RunMigrations_loop env ms w1))"
      by (rule only_queried_trans)
    with step None show ?thesis by simp
  next
    case (Some e)
    with step first show ?thesis by simp
  qed
qed

lemma loop_all_skipped:
  assumes "\<forall>m \<in> set ms. Version m \<in> set (versions (stored w))"
    and "has_table ''migrations'' (stored w)"
    and "\<forall>n. fault env n = None"
  shows "fst (RunMigrations_loop env ms w) = None"
  using assms(1,2)
proof (induction ms arbitrary: w)
  case Nil
  show ?case by simp
next
  case (Cons m ms)
  obtain r w1 where step: "RunMigrations_step env m w = (r, w1)" by fastforce
  from Cons.prems have m: "Version m \<in> set (versions (stored w))" by simp
  from step_recorded_ok[OF m Cons.prems(2), of env] assms(3) step have r: "r = None" by simp
  from step_recorded[OF step m] have same: "stored w1 = stored w" by simp
  with Cons.prems have "fst (RunMigrations_loop env ms w1) = None"
    by (intro Cons.IH) simp_all
  with step r show ?case by simp
qed

lemma step_had_table:
  assumes "RunMigrations_step env m w = (None, w')"
  shows "has_table ''migrations'' (stored w)"
  using assms
  by (cases rule: step_cases) (auto simp: select_count_def split: if_splits)

lemma has_table_mono:
  "prefix (tables d) (tables d') \<Longrightarrow> has_table t d \<Longrightarrow> has_table t d'"
  by (auto simp: has_table_def prefix_def)

lemma loop_had_table:
  assumes "RunMigrations_loop env (m # ms) w = (None, w')"
  shows "has_table ''migrations'' (stored w')"
proof -
  from assms have "has_table ''migrations'' (stored w)"
    by (auto split: prod.splits option.splits dest: step_had_table)
  with loop_tables[OF assms] show ?thesis by (rule has_table_mono)
qed

lemma loop_never_reapplies:
  assumes "RunMigrations_loop env ms w = (r, w')" and "v \<in> set (versions (stored w))"
  shows "v \<notin> set (executing (new_logged w w'))"
proof -
  have "prefix (logged w) (logged w') \<and> prefix (ledger (stored w)) (ledger (stored w'))
      \<and> v \<notin> set (executing (new_logged w w'))"
    using assms(1)
  proof (rule loop_invariant[where P = "\<lambda>u. prefix (logged w) (logged u)
      \<and> prefix (ledger (stored w)) (ledger (stored u))
      \<and> v \<notin> set (executing (new_logged w u))"])
    show "prefix (logged w) (logged w) \<and> prefix (ledger (stored w)) (ledger (stored w))
      \<and> v \<notin> set (executing (new_logged w w))"
      by (simp add: new_logged_def)
  next
    fix m u r u'
    assume P: "prefix (logged w) (logged u) \<and> prefix (ledger (stored w)) (ledger (stored u))
      \<and> v \<notin> set (executing (new_logged w u))"
      and step: "RunMigrations_step env m u = (r, u')"
    from P assms(2) have v: "v \<in> set (versions (stored u))" by (auto intro: versions_mono)
    have "v \<notin> set (executing (new_logged u u'))"
    proof (cases "Version m = v")
      case True
      with v step_only_queried[of m u env] step show ?thesis by (simp add: only_queried_def)
    next
      case False
      with step_new_executing[OF step] show ?thesis by auto
    qed
    moreover have "new_logged w u' = new_logged w u @ new_logged u u'"
      using P step_logged[OF step] by (intro new_logged_trans) simp_all
    ultimately have "v \<notin> set (executing (new_logged w u'))"
      using P by (simp add: executing_append)
    moreover have "prefix (logged w) (logged u')"
      using P step_logged[OF step] by (auto intro: prefix_order.trans)
    moreover have "prefix (ledger (stored w)) (ledger (stored u'))"
      using P step_ledger[OF step] by (auto intro: prefix_order.trans)
    ultimately show "prefix (logged w) (logged u')
      \<and> prefix (ledger (stored w)) (ledger (stored u'))
      \<and> v \<notin> set (executing (new_logged w u'))" by simp
  qed
  then show ?thesis by simp
qed

text \<open>
  C1. In a store where every catalog version has a ledger row, a run of the loop issues
  nothing but the ledger queries: the file's contents stay as they were and no migration
  is executed. A run that returned \<open>nil\<close> leaves such a store, so the run after it changes
  nothing; this holds for any catalog and for \<open>RunMigrations\<close> with the compiled-in one,
  whatever the environment does. When no call fails, the second run of \<open>RunMigrations\<close>
  returns \<open>nil\<close> as well. In any store and for any catalog, a version that has a ledger
  row when the run starts is not executed in that run.
\<close>

theorem RunMigrations_idempotent:
  "((\<forall>m \<in> set ms. Version m \<in> set (versions (stored w))) \<longrightarrow>
       only_queried w (snd (RunMigrations_loop env ms w)))
   \<and> (RunMigrations_loop env0 ms w0 = (None, w) \<longrightarrow>
       only_queried w (snd (RunMigrations_loop env ms w)))
   \<and> (RunMigrations env0 dm0 w0 = (Returned None, w) \<longrightarrow>
       only_queried w (snd (RunMigrations env dm w)))
   \<and> (RunMigrations env0 dm0 w0 = (Returned None, w) \<and> DB dm \<noteq> None
       \<and> (\<forall>n. fault env n = None) \<longrightarrow> fst (RunMigrations env dm w) = Returned None)
   \<and> (v \<in> set (versions (stored w)) \<longrightarrow>
       v \<notin> set (executing (new_logged w (snd (RunMigrations_loop env ms w)))))"
proof (intro conjI impI)
  assume "\<forall>m \<in> set ms. Version m \<in> set (versions (stored w))"
  then show "only_queried w (snd (RunMigrations_loop env ms w))" by (rule loop_only_queried)
next
  assume "RunMigrations_loop env0 ms w0 = (None, w)"
  then have "\<forall>m \<in> set ms. Version m \<in> set (versions (stored w))" by (rule loop_applied)
  then show "only_queried w (snd (RunMigrations_loop env ms w))" by (rule loop_only_queried)
next
  assume "RunMigrations env0 dm0 w0 = (Returned None, w)"
  then have "RunMigrations_loop env0 GetMigrations w0 = (None, w)"
    by (auto simp: RunMigrations_def split: option.splits prod.splits)
  then have "\<forall>m \<in> set GetMigrations. Version m \<in> set (versions (stored w))"
    by (rule loop_applied)
  then have "only_queried w (snd (RunMigrations_loop env GetMigrations w))"
    by (rule loop_only_queried)
  then show "only_queried w (snd (RunMigrations env dm w))"
    by (auto simp: RunMigrations_def only_queried_refl split: option.splits prod.splits)
next
  assume a: "RunMigrations env0 dm0 w0 = (Returned None, w) \<and> DB dm \<noteq> None
       \<and> (\<forall>n. fault env n = None)"
  then have first: "RunMigrations_loop env0 GetMigrations w0 = (None, w)"
    by (auto simp: RunMigrations_def split: option.splits prod.splits)
  then have "\<forall>m \<in> set GetMigrations. Version m \<in> set (versions (stored w))"
    by (rule loop_applied)
  moreover from first have "has_table ''migrations'' (stored w)"
    unfolding GetMigrations_def by (rule loop_had_table)
  ultimately have "fst (RunMigrations_loop env GetMigrations w) = None"
    using a by (intro loop_all_skipped) simp_all
  with a show "fst (RunMigrations env dm w) = Returned None"
    by (auto simp: RunMigrations_def split: option.splits prod.splits)
next
  assume v: "v \<in> set (versions (stored w))"
  obtain r w' where "RunMigrations_loop env ms w = (r, w')" by fastforce
  from loop_never_reapplies[OF this v] this
  show "v \<notin> set (executing (new_logged w (snd (RunMigrations_loop env ms w))))" by simp
qed

lemma quiet_no_fault: "\<forall>n. fault quiet n = None"
  by (simp add: quiet_def)

theorem RunMigrations_idempotent_witness:
  "RunMigrations quiet connected ledger_only = (Returned None, migrated)
   \<and> RunMigrations_loop quiet GetMigrations ledger_only = (None, migrated)
   \<and> map Version GetMigrations = [1]
   \<and> versions (stored migrated) = [1]
   \<and> only_queried migrated (snd (RunMigrations_loop quiet GetMigrations migrated))
   \<and> only_queried migrated (snd (RunMigrations quiet connected migrated))
   \<and> fst (RunMigrations quiet connected migrated) = Returned None
   \<and> new_calls migrated (snd (RunMigrations quiet connected migrated)) = [DBQueryCount 1]
   \<and> 1 \<notin> set (executing (new_logged migrated
        (snd (RunMigrations_loop quiet [migration_one, migration_three] migrated))))
   \<and> executing (new_logged migrated
        (snd (RunMigrations_loop quiet [migration_one, migration_three] migrated))) = [3]"
proof -
  have first: "RunMigrations quiet connected ledger_only = (Returned None, migrated)"
    by code_simp
  have loop: "RunMigrations_loop quiet GetMigrations ledger_only = (None, migrated)"
    by code_simp
  have catalog: "map Version GetMigrations = [1]"
    by (simp add: GetMigrations_def)
  have rows: "versions (stored migrated) = [1]"
    by code_simp
  have recorded: "\<forall>m \<in> set GetMigrations. Version m \<in> set (versions (stored migrated))"
    by (simp add: rows) (simp add: GetMigrations_def)
  have handle: "DB connected \<noteq> None"
    by (simp add: connected_def)
  have queried: "new_calls migrated (snd (RunMigrations quiet connected migrated))
      = [DBQueryCount 1]"
    by code_simp
  have three: "executing (new_logged migrated
        (snd (RunMigrations_loop quiet [migration_one, migration_three] migrated))) = [3]"
    by code_simp
  from RunMigrations_idempotent[where w = migrated and v = 1 and env = quiet
      and ms = "[migration_one, migration_three]"] rows
  have never: "1 \<notin> set (executing (new_logged migrated
        (snd (RunMigrations_loop quiet [migration_one, migration_three] migrated))))"
    by simp
  note inst = RunMigrations_idempotent
    [of GetMigrations migrated quiet quiet ledger_only connected connected]
  from inst recorded
  have "only_queried migrated (snd (RunMigrations_loop quiet GetMigrations migrated))"
    by blast
  moreover from inst first
  have "only_queried migrated (snd (RunMigrations quiet connected migrated))"
    by blast
  moreover from inst first handle quiet_no_fault
  have "fst (RunMigrations quiet connected migrated) = Returned None"
    by blast
  ultimately show ?thesis using first loop catalog rows queried never three by blast
qed

subsection \<open>Startup\<close>

text \<open>
  C10. In \<open>main\<close> the user model is built from the manager's \<open>DB\<close> field before
  \<open>InitializeDatabase\<close> runs. Whatever the environment does, the model's handle is \<open>nil\<close>;
  when \<open>InitializeDatabase\<close> returns \<open>nil\<close> the manager holds an open handle, and the model
  still holds \<open>nil\<close>.
\<close>

theorem main_user_model_handle_is_nil:
  assumes "main_startup env w = (app, dbManager, r, w')"
  shows "UserModel_DB (user app) = None
       \<and> (r = Returned None \<longrightarrow>
            DB dbManager = Some (Handle (dbPath @ ''?_foreign_keys=on''))
            \<and> UserModel_DB (user app) \<noteq> DB dbManager)"
proof -
  obtain r0 dm0 w0 where init:
    "InitializeDatabase env (NewDatabaseManager dbPath) w = (r0, dm0, w0)"
    by (metis prod_cases3)
  with assms have app: "app = \<lparr>user = \<lparr>UserModel_DB = DB (NewDatabaseManager dbPath)\<rparr>\<rparr>"
    and dm: "dbManager = dm0" and r: "r = r0"
    by (simp_all add: main_startup_def Let_def)
  from app have nil: "UserModel_DB (user app) = None"
    by (simp add: NewDatabaseManager_def)
  have "DB dm0 = Some (Handle (dbPath @ ''?_foreign_keys=on''))" if "r0 = Returned None"
  proof -
    obtain c dm1 w1 where con: "Connect env (NewDatabaseManager dbPath) w = (c, dm1, w1)"
      by (metis prod_cases3)
    with init that have "c = None" and "dm0 = dm1"
      by (auto simp: InitializeDatabase_def split: option.splits prod.splits outcome.splits)
    with con Connect_succeeded[of env "NewDatabaseManager dbPath" w dm1 w1]
    show ?thesis by (simp add: NewDatabaseManager_def)
  qed
  with nil dm r show ?thesis by simp
qed

theorem main_user_model_handle_is_nil_witness:
  "fst (snd (snd (main_startup quiet empty_world))) = Returned None
   \<and> UserModel_DB (user (fst (main_startup quiet empty_world))) = None
   \<and> DB (fst (snd (main_startup quiet empty_world)))
       = Some (Handle (dbPath @ ''?_foreign_keys=on''))"
proof -
  obtain app dbManager r w' where run: "main_startup quiet empty_world = (app, dbManager, r, w')"
    by (metis prod_cases4)
  have "fst (snd (snd (main_startup quiet empty_world))) = Returned None"
    by code_simp
  with run have r: "r = Returned None" by simp
  from main_user_model_handle_is_nil[OF run] r run show ?thesis by simp
qed

subsection \<open>Failure of a migration\<close>



subsection \<open>Stopping at the first failure\<close>









subsection \<open>Order of execution\<close>






subsection \<open>The ledger table\<close>

lemma createMigrationsTable_cases:
  assumes "createMigrationsTable env dm w = (r, w')"
  obtains
    (nil_handle) "DB dm = None" "r = NilDereference" "w' = w"
  | (fault) e where "DB dm \<noteq> None" "fault env (length (calls w)) = Some e"
      "r = Returned (Some (CreateTableFailed e))" "w' = issue (DBExec create_migrations_query) w"
  | (present) "DB dm \<noteq> None" "fault env (length (calls w)) = None"
      "has_table ''migrations'' (stored w)"
      "r = Returned None" "w' = issue (DBExec create_migrations_query) w"
  | (created) "DB dm \<noteq> None" "fault env (length (calls w)) = None"
      "\<not> has_table ''migrations'' (stored w)"
      "r = Returned None"
      "w' = (issue (DBExec create_migrations_query) w)
              \<lparr>stored := (stored w)\<lparr>tables := tables (stored w)
                           @ [(''migrations'', migrations_columns)]\<rparr>\<rparr>"
  using assms
  by (cases "has_table ''migrations'' (stored w)")
     (auto simp: createMigrationsTable_def DB_Exec_def create_migrations_query_def Let_def
       issue_def split: option.splits)


lemma createMigrationsTable_ledger:
  assumes "createMigrationsTable env dm w = (r, w')"
  shows "ledger (stored w') = ledger (stored w)"
  using assms by (cases rule: createMigrationsTable_cases) auto



lemma InitializeDatabase_cases:
  assumes "InitializeDatabase env dm w = (r, dm', w')"
  obtains
    (connect_failed) err w1 where "Connect env dm w = (Some err, dm', w1)"
      "r = Returned (Some err)" "w' = w1"
  | (create_failed) dm1 w1 w2 where "Connect env dm w = (None, dm1, w1)"
      "createMigrationsTable env dm1 w1 = (r, w2)" "r \<noteq> Returned None" "w' = w2" "dm' = dm1"
  | (migrate_failed) dm1 w1 w2 w3 where "Connect env dm w = (None, dm1, w1)"
      "createMigrationsTable env dm1 w1 = (Returned None, w2)"
      "RunMigrations env dm1 w2 = (r, w3)" "r \<noteq> Returned None" "w' = w3" "dm' = dm1"
  | (initialized) dm1 w1 w2 w3 where "Connect env dm w = (None, dm1, w1)"
      "createMigrationsTable env dm1 w1 = (Returned None, w2)"
      "RunMigrations env dm1 w2 = (Returned None, w3)" "r = Returned None"
      "w' = say Initialized w3" "dm' = dm1"
  using assms
  by (auto simp: InitializeDatabase_def split: prod.splits option.splits outcome.splits)




subsection \<open>Rows of the ledger\<close>

lemma RunMigrations_ledger:
  "prefix (ledger (stored w)) (ledger (stored (snd (RunMigrations env dm w))))"
  by (auto simp: RunMigrations_def split: option.splits prod.splits dest: loop_ledger)

lemma RunMigrations_distinct:
  "distinct (versions (stored w)) \<Longrightarrow> distinct (versions (stored (snd (RunMigrations env dm w))))"
  by (auto simp: RunMigrations_def split: option.splits prod.splits dest: loop_distinct)

lemma InitializeDatabase_ledger:
  "prefix (ledger (stored w)) (ledger (stored (snd (snd (InitializeDatabase env dm w)))))"
proof -
  obtain r dm' w' where i: "InitializeDatabase env dm w = (r, dm', w')"
    by (metis prod_cases3)
  then have "prefix (ledger (stored w)) (ledger (stored w'))"
  proof (cases rule: InitializeDatabase_cases)
    case (connect_failed err w1)
    then show ?thesis using Connect_world[of env dm w "Some err" dm' w1] by simp
  next
    case (create_failed dm1 w1 w2)
    with Connect_world[OF create_failed(1)] createMigrationsTable_ledger[OF create_failed(2)]
    show ?thesis by simp
  next
    case (migrate_failed dm1 w1 w2 w3)
    with Connect_world[OF migrate_failed(1)] createMigrationsTable_ledger[OF migrate_failed(2)]
      RunMigrations_ledger[of w2 env dm1]
    show ?thesis by simp
  next
    case (initialized dm1 w1 w2 w3)
    with Connect_world[OF initialized(1)] createMigrationsTable_ledger[OF initialized(2)]
      RunMigrations_ledger[of w2 env dm1]
    show ?thesis by simp
  qed
  with i show ?thesis by simp
qed

lemma InitializeDatabase_distinct:
  assumes "distinct (versions (stored w))"
  shows "distinct (versions (stored (snd (snd (InitializeDatabase env dm w)))))"
proof -
  obtain r dm' w' where i: "InitializeDatabase env dm w = (r, dm', w')"
    by (metis prod_cases3)
  then have "distinct (versions (stored w'))"
  proof (cases rule: InitializeDatabase_cases)
    case (connect_failed err w1)
    then show ?thesis using Connect_world[of env dm w "Some err" dm' w1] assms by simp
  next
    case (create_failed dm1 w1 w2)
    with Connect_world[OF create_failed(1)] createMigrationsTable_ledger[OF create_failed(2)]
      assms
    show ?thesis by (simp add: versions_def)
  next
    case (migrate_failed dm1 w1 w2 w3)
    from Connect_world[OF migrate_failed(1)] createMigrationsTable_ledger[OF migrate_failed(2)]
      assms
    have "distinct (versions (stored w2))" by (simp add: versions_def)
    from RunMigrations_distinct[OF this, of env dm1] migrate_failed show ?thesis by simp
  next
    case (initialized dm1 w1 w2 w3)
    from Connect_world[OF initialized(1)] createMigrationsTable_ledger[OF initialized(2)]
      assms
    have "distinct (versions (stored w2))" by (simp add: versions_def)
    from RunMigrations_distinct[OF this, of env dm1] initialized show ?thesis by simp
  qed
  with i show ?thesis by simp
qed

text \<open>the file's contents change only when \<open>Commit\<close> is called\<close>
lemma step_changes_at_commit:
  assumes "RunMigrations_step env m w = (r, w')" and "stored w' \<noteq> stored w"
  shows "TxCommit \<in> set (new_calls w w')"
  using assms by (cases rule: step_cases) (auto simp: new_calls_def)

lemma loop_changes_at_commit:
  assumes "RunMigrations_loop env ms w = (r, w')" and "stored w' \<noteq> stored w"
  shows "TxCommit \<in> set (new_calls w w')"
proof -
  have "prefix (calls w) (calls w')
      \<and> (stored w' \<noteq> stored w \<longrightarrow> TxCommit \<in> set (new_calls w w'))"
    using assms(1)
  proof (rule loop_invariant[where P = "\<lambda>u. prefix (calls w) (calls u)
      \<and> (stored u \<noteq> stored w \<longrightarrow> TxCommit \<in> set (new_calls w u))"])
    show "prefix (calls w) (calls w)
      \<and> (stored w \<noteq> stored w \<longrightarrow> TxCommit \<in> set (new_calls w w))" by simp
  next
    fix m u r u'
    assume P: "prefix (calls w) (calls u)
      \<and> (stored u \<noteq> stored w \<longrightarrow> TxCommit \<in> set (new_calls w u))"
      and step: "RunMigrations_step env m u = (r, u')"
    from P obtain cs where cs: "calls u = calls w @ cs" by (auto simp: prefix_def)
    from step_calls[OF step] obtain cs' where cs': "calls u' = calls u @ cs'"
      by (auto simp: prefix_def)
    from cs cs' have new: "new_calls w u = cs" "new_calls u u' = cs'"
      "new_calls w u' = cs @ cs'" by (simp_all add: new_calls_def)
    have "TxCommit \<in> set (cs @ cs')" if "stored u' \<noteq> stored w"
    proof (cases "stored u' = stored u")
      case True
      with that P new show ?thesis by simp
    next
      case False
      with step have "TxCommit \<in> set (new_calls u u')" by (rule step_changes_at_commit)
      with new show ?thesis by simp
    qed
    with cs cs' new show "prefix (calls w) (calls u')
      \<and> (stored u' \<noteq> stored w \<longrightarrow> TxCommit \<in> set (new_calls w u'))" by simp
  qed
  with assms(2) show ?thesis by simp
qed

text \<open>
  C7. Whatever the environment does, each of \<open>createMigrationsTable\<close>, \<open>RunMigrations\<close>
  (with the compiled-in catalog, and the loop with any catalog) and \<open>InitializeDatabase\<close>
  leaves the ledger's earlier rows in place, unchanged and in their order: the ledger
  afterwards is the ledger before followed by the new rows. \<open>createMigrationsTable\<close> adds
  none. Versions that were pairwise distinct stay so, that is a version gets at most one
  row; and the loop changes the ledger only in a run that called \<open>Commit\<close>.
\<close>

theorem ledger_rows_are_kept:
  "ledger (stored (snd (createMigrationsTable env dm w))) = ledger (stored w)
   \<and> prefix (ledger (stored w)) (ledger (stored (snd (RunMigrations env dm w))))
   \<and> prefix (ledger (stored w)) (ledger (stored (snd (RunMigrations_loop env ms w))))
   \<and> prefix (ledger (stored w)) (ledger (stored (snd (snd (InitializeDatabase env dm w)))))
   \<and> (distinct (versions (stored w)) \<longrightarrow>
        distinct (versions (stored (snd (RunMigrations env dm w))))
        \<and> distinct (versions (stored (snd (RunMigrations_loop env ms w))))
        \<and> distinct (versions (stored (snd (snd (InitializeDatabase env dm w))))))
   \<and> (ledger (stored (snd (RunMigrations_loop env ms w))) \<noteq> ledger (stored w) \<longrightarrow>
        TxCommit \<in> set (new_calls w (snd (RunMigrations_loop env ms w))))"
proof -
  obtain r w' where l: "RunMigrations_loop env ms w = (r, w')" by fastforce
  obtain rc wc where c: "createMigrationsTable env dm w = (rc, wc)" by fastforce
  from createMigrationsTable_ledger[OF c] c
  have 1: "ledger (stored (snd (createMigrationsTable env dm w))) = ledger (stored w)" by simp
  from loop_ledger[OF l] l
  have 2: "prefix (ledger (stored w)) (ledger (stored (snd (RunMigrations_loop env ms w))))"
    by simp
  have 3: "distinct (versions (stored (snd (RunMigrations_loop env ms w))))"
    if "distinct (versions (stored w))"
    using loop_distinct[OF l that] l by simp
  have 4: "TxCommit \<in> set (new_calls w (snd (RunMigrations_loop env ms w)))"
    if "ledger (stored (snd (RunMigrations_loop env ms w))) \<noteq> ledger (stored w)"
  proof -
    from that l have "stored w' \<noteq> stored w" by auto
    with l have "TxCommit \<in> set (new_calls w w')" by (rule loop_changes_at_commit)
    with l show ?thesis by simp
  qed
  from 1 2 3 4 RunMigrations_ledger InitializeDatabase_ledger RunMigrations_distinct
    InitializeDatabase_distinct
  show ?thesis by blast
qed

theorem ledger_rows_are_kept_witness:
  "distinct (versions (stored migrated))
   \<and> versions (stored migrated) = [1]
   \<and> map Version [migration_one, migration_three] = [1, 3]
   \<and> versions (stored (snd (RunMigrations_loop quiet [migration_one, migration_three]
        migrated))) = [1, 3]
   \<and> prefix (ledger (stored migrated))
        (ledger (stored (snd (RunMigrations_loop quiet [migration_one, migration_three]
          migrated))))
   \<and> distinct (versions (stored (snd (RunMigrations_loop quiet
        [migration_one, migration_three] migrated))))
   \<and> TxCommit \<in> set (new_calls migrated (snd (RunMigrations_loop quiet
        [migration_one, migration_three] migrated)))"
proof -
  have rows: "versions (stored migrated) = [1]" by code_simp
  then have d: "distinct (versions (stored migrated))" by simp
  have cat: "map Version [migration_one, migration_three] = [1, 3]"
    by (simp add: migration_one_def migration_three_def)
  have after: "versions (stored (snd (RunMigrations_loop quiet
      [migration_one, migration_three] migrated))) = [1, 3]"
    by code_simp
  with rows have changed: "ledger (stored (snd (RunMigrations_loop quiet
      [migration_one, migration_three] migrated))) \<noteq> ledger (stored migrated)"
    by (auto simp: versions_def)
  note inst = ledger_rows_are_kept
    [of quiet connected migrated "[migration_one, migration_three]"]
  from inst d changed rows cat after show ?thesis by blast
qed

subsection \<open>Bootstrap\<close>






subsection \<open>Diagnostics\<close>

text \<open>
  C6, evaluated. With the database locked at the ledger query (call 1 of
  \<open>InitializeDatabase\<close>) or at \<open>Begin\<close> (call 2), the error returned carries no version: its
  text is the same whichever migration was being checked, here for versions 1 and 3. The
  errors of the body, the ledger insert and \<open>Commit\<close> do print the version.
\<close>

theorem status_check_error_names_no_version:
  "fst (InitializeDatabase (locked_at 1) (NewDatabaseManager dbPath) empty_world)
     = Returned (Some (CheckStatusFailed ''database is locked''))
   \<and> fst (InitializeDatabase (locked_at 2) (NewDatabaseManager dbPath) empty_world)
     = Returned (Some (BeginFailed ''database is locked''))
   \<and> map_option error_text (fst (RunMigrations_loop (locked_at 0) [migration_one] ledger_only))
     = Some ''failed to check migration status: database is locked''
   \<and> map_option error_text (fst (RunMigrations_loop (locked_at 0) [migration_three] ledger_only))
     = Some ''failed to check migration status: database is locked''
   \<and> map_option error_text (fst (RunMigrations_loop (locked_at 1) [migration_one] ledger_only))
     = Some ''failed to begin transaction: database is locked''
   \<and> map_option error_text (fst (RunMigrations_loop (locked_at 1) [migration_three] ledger_only))
     = Some ''failed to begin transaction: database is locked''
   \<and> map_option error_text (fst (RunMigrations_loop (locked_at 2) [migration_three] ledger_only))
     = Some ''failed to execute migration 3: database is locked''
   \<and> map_option error_text (fst (RunMigrations_loop (locked_at 3) [migration_three] ledger_only))
     = Some ''failed to record migration 3: database is locked''
   \<and> map_option error_text (fst (RunMigrations_loop (locked_at 4) [migration_three] ledger_only))
     = Some ''failed to commit migration 3: database is locked''"
  by code_simp

end
